theory Spec2Isabelle
  imports Main "HOL-Library.Char_ord" "HOL-Library.List_Lexorder"
begin

section \<open>Python string primitives used by the converter\<close>

text \<open>
  Python strings are modelled as \<open>string\<close>, one \<open>char\<close> per code point, so the
  model covers the code points below 256. \<open>py_isspace\<close> is \<open>str.isspace\<close> on that
  range: it decides what \<open>str.strip()\<close> removes and what the regular expression class
  \<open>\s\<close> matches.
\<close>

definition py_isspace :: "char \<Rightarrow> bool" where
  "py_isspace c = (of_char c \<in> {9, 10, 11, 12, 13, 28, 29, 30, 31, 32, 133, 160 :: nat})"

definition lstrip :: "string \<Rightarrow> string" where
  "lstrip s = dropWhile py_isspace s"

definition rstrip :: "string \<Rightarrow> string" where
  "rstrip s = rev (dropWhile py_isspace (rev s))"

definition strip :: "string \<Rightarrow> string" where
  "strip s = lstrip (rstrip s)"

text \<open>\<open>value.split(d)\<close> for a one-character separator: \<open>"".split(";")\<close> is \<open>[""]\<close>.\<close>

fun split_on :: "char \<Rightarrow> string \<Rightarrow> string list" where
  "split_on d [] = [[]]"
| "split_on d (c # cs) =
     (if c = d then [] # split_on d cs
      else (case split_on d cs of
              [] \<Rightarrow> [[c]]
            | l # ls \<Rightarrow> (c # l) # ls))"

text \<open>\<open>sep.join(xs)\<close>.\<close>

fun join :: "string \<Rightarrow> string list \<Rightarrow> string" where
  "join sep [] = []"
| "join sep [x] = x"
| "join sep (x # y # ys) = x @ sep @ join sep (y # ys)"

text \<open>\<open>str(n)\<close> for a non-negative integer, and for any integer.\<close>

definition digit_char :: "nat \<Rightarrow> char" where
  "digit_char d = char_of (48 + d)"

function str_nat :: "nat \<Rightarrow> string" where
  "str_nat n = (if n < 10 then [digit_char n] else str_nat (n div 10) @ [digit_char (n mod 10)])"
  by pat_completeness auto
termination
  by (relation "measure (\<lambda>n. n)") auto

declare str_nat.simps [simp del]

definition str_int :: "int \<Rightarrow> string" where
  "str_int i = (if i < 0 then CHR ''-'' # str_nat (nat (- i)) else str_nat (nat i))"

text \<open>\<open>str.lower()\<close> on the code points below 256.\<close>

definition py_lower_char :: "char \<Rightarrow> char" where
  "py_lower_char c =
     (if of_char c \<in> {65..90 :: nat} \<or> of_char c \<in> {192..214 :: nat} \<or> of_char c \<in> {216..222 :: nat}
      then char_of (of_char c + 32 :: nat) else c)"

definition py_lower :: "string \<Rightarrow> string" where
  "py_lower s = map py_lower_char s"

text \<open>
  \<open>str.splitlines()\<close>: a line ends at \<open>\n\<close>, \<open>\r\<close>, \<open>\r\n\<close>, \<open>\v\<close>, \<open>\f\<close>, \<open>\x1c\<close>,
  \<open>\x1d\<close>, \<open>\x1e\<close> or \<open>\x85\<close>; no empty last line is reported. The flag records that
  the previous character was a carriage return, whose following line feed belongs to the
  same line end.
\<close>

definition is_linebreak :: "char \<Rightarrow> bool" where
  "is_linebreak c = (of_char c \<in> {10, 11, 12, 13, 28, 29, 30, 133 :: nat})"

fun splitlines_from :: "bool \<Rightarrow> string \<Rightarrow> string \<Rightarrow> string list" where
  "splitlines_from after_cr cur [] = (if cur = [] then [] else [cur])"
| "splitlines_from after_cr cur (c # cs) =
     (if after_cr \<and> c = CHR 0x0A then splitlines_from False cur cs
      else if is_linebreak c then cur # splitlines_from (c = CHR 0x0D) [] cs
      else splitlines_from False (cur @ [c]) cs)"

definition py_splitlines :: "string \<Rightarrow> string list" where
  "py_splitlines s = splitlines_from False [] s"

definition newline :: string where
  "newline = [CHR 0x0A]"

section \<open>Text utilities (\<open>utils.py\<close>)\<close>

subsection \<open>Slugs\<close>

text \<open>
  Modelled from the spec: \<open>slugify\<close> is the function of the python-slugify package, which
  is not part of the repository. The specification describes it as: lowercase,
  non-alphanumeric runs replaced by the separator, leading and trailing separators
  trimmed. The model splits the lowercased text into its maximal runs of \<open>a-z0-9\<close> and
  joins the non-empty runs with the separator.
\<close>

definition is_slug_char :: "char \<Rightarrow> bool" where
  "is_slug_char c = (of_char c \<in> {97..122 :: nat} \<or> of_char c \<in> {48..57 :: nat})"

fun slug_runs :: "string \<Rightarrow> string list" where
  "slug_runs [] = [[]]"
| "slug_runs (c # cs) =
     (if is_slug_char c
      then (case slug_runs cs of
              [] \<Rightarrow> [[c]]
            | r # rs \<Rightarrow> (c # r) # rs)
      else [] # slug_runs cs)"

definition slugify :: "string \<Rightarrow> string \<Rightarrow> string" where
  "slugify text_in separator =
     join separator (filter (\<lambda>r. r \<noteq> []) (slug_runs (py_lower text_in)))"

definition slugify_text :: "string \<Rightarrow> string \<Rightarrow> string" where
  "slugify_text v separator = slugify (if v = [] then ''unnamed'' else v) separator"

definition slugify_path :: "string list \<Rightarrow> string" where
  "slugify_path parts =
     join ''/'' (map (\<lambda>part. slugify_text part ''-'') (filter (\<lambda>part. part \<noteq> []) parts))"

subsection \<open>Sentence splitting\<close>

text \<open>
  \<open>_sentence_splitter = re.compile(r"(?<=[.!?])\s+(?=[A-Z0-9])")\<close>. The pattern matches
  at the head of \<open>s\<close>, the character before being \<open>prev\<close>, when \<open>prev\<close> is one of
  \<open>.!?\<close>, \<open>s\<close> starts with whitespace, and the whole whitespace run is followed by an
  uppercase letter or digit; the match is that run (a shorter run is followed by
  whitespace, so backtracking finds nothing else).
\<close>

definition is_terminator :: "char \<Rightarrow> bool" where
  "is_terminator c = (c = CHR ''.'' \<or> c = CHR ''!'' \<or> c = CHR ''?'')"

definition is_upper_or_digit :: "char \<Rightarrow> bool" where
  "is_upper_or_digit c = (of_char c \<in> {65..90 :: nat} \<or> of_char c \<in> {48..57 :: nat})"

definition is_digit :: "char \<Rightarrow> bool" where
  "is_digit c = (of_char c \<in> {48..57 :: nat})"

definition gap_then_start :: "string \<Rightarrow> bool" where
  "gap_then_start s =
     (takeWhile py_isspace s \<noteq> [] \<and>
      (case dropWhile py_isspace s of [] \<Rightarrow> False | r # _ \<Rightarrow> is_upper_or_digit r))"

definition splitter_matches :: "char option \<Rightarrow> string \<Rightarrow> bool" where
  "splitter_matches prev s =
     (case prev of None \<Rightarrow> False | Some p \<Rightarrow> is_terminator p \<and> gap_then_start s)"

text \<open>
  \<open>_sentence_splitter.split(line)\<close>: the pieces between successive matches, scanning from
  the left; after a match the scan resumes behind the matched whitespace.
\<close>

function re_split_from :: "char option \<Rightarrow> string \<Rightarrow> string list" where
  "re_split_from prev [] = [[]]"
| "re_split_from prev (c # cs) =
     (if splitter_matches prev (c # cs)
      then [] # re_split_from (Some (last (takeWhile py_isspace (c # cs))))
                 (dropWhile py_isspace (c # cs))
      else (case re_split_from (Some c) cs of
              [] \<Rightarrow> [[c]]
            | x # xs \<Rightarrow> (c # x) # xs))"
  by pat_completeness auto
termination
proof (relation "measure (\<lambda>(prev, s). length s)")
  show "wf (measure (\<lambda>(prev, s). length s))" by simp
next
  fix prev :: "char option" and c :: char and cs :: string
  assume "splitter_matches prev (c # cs)"
  then have "py_isspace c"
    by (auto simp: splitter_matches_def gap_then_start_def split: option.splits if_splits)
  then have "dropWhile py_isspace (c # cs) = dropWhile py_isspace cs" by simp
  then have "length (dropWhile py_isspace (c # cs)) \<le> length cs"
    by (simp add: length_dropWhile_le)
  then show "((Some (last (takeWhile py_isspace (c # cs))), dropWhile py_isspace (c # cs)), (prev, c # cs))
        \<in> measure (\<lambda>(prev, s). length s)"
    by simp
next
  fix prev :: "char option" and c :: char and cs :: string
  show "((Some c, cs), (prev, c # cs)) \<in> measure (\<lambda>(prev, s). length s)" by simp
qed

declare re_split_from.simps [simp del]

definition sentence_splitter_split :: "string \<Rightarrow> string list" where
  "sentence_splitter_split line = re_split_from None line"

text \<open>
  \<open>line.startswith(("-", "*", "+", ">")) or re.match(r"^\d+\.", line)\<close>.
\<close>

definition starts_with_marker :: "string \<Rightarrow> bool" where
  "starts_with_marker line =
     (case line of
        [] \<Rightarrow> False
      | c # _ \<Rightarrow> c = CHR ''-'' \<or> c = CHR ''*'' \<or> c = CHR ''+'' \<or> c = CHR ''>'')"

definition starts_with_number :: "string \<Rightarrow> bool" where
  "starts_with_number line =
     (takeWhile is_digit line \<noteq> [] \<and>
      (case dropWhile is_digit line of [] \<Rightarrow> False | c # _ \<Rightarrow> c = CHR ''.''))"

definition is_list_line :: "string \<Rightarrow> bool" where
  "is_list_line line = (starts_with_marker line \<or> starts_with_number line)"

text \<open>The body of the loop over the raw lines: what one raw line adds to \<open>lines\<close>.\<close>

definition line_units :: "string \<Rightarrow> string list" where
  "line_units raw_line =
     (let line = strip raw_line in
      if line = [] then []
      else if is_list_line line then [line]
      else (let sentences = map strip (filter (\<lambda>segment. strip segment \<noteq> [])
                                        (sentence_splitter_split line))
            in if sentences \<noteq> [] then sentences else [line]))"

fun sentences_loop :: "string list \<Rightarrow> string list \<Rightarrow> string list" where
  "sentences_loop lines [] = lines"
| "sentences_loop lines (raw_line # rest) = sentences_loop (lines @ line_units raw_line) rest"

definition split_into_sentences :: "string \<Rightarrow> string list" where
  "split_into_sentences text_in =
     (if text_in = [] then [] else sentences_loop [] (py_splitlines (strip text_in)))"

subsection \<open>Chunk grouping\<close>

text \<open>
  \<open>chunk_sentences\<close>: the loop carries \<open>chunks\<close>, \<open>current\<close> and \<open>current_len\<close>.
\<close>

fun chunk_loop :: "int \<Rightarrow> int \<Rightarrow> string list \<Rightarrow> string list \<Rightarrow> int \<Rightarrow> string list \<Rightarrow> string list" where
  "chunk_loop target_chars max_chars chunks current current_len [] =
     (if current \<noteq> [] then chunks @ [strip (join newline current)] else chunks)"
| "chunk_loop target_chars max_chars chunks current current_len (sentence # rest) =
     (let sentence_len = int (length sentence);
          flush = (current \<noteq> [] \<and> current_len + sentence_len + 1 > max_chars);
          chunks1 = (if flush then chunks @ [strip (join newline current)] else chunks);
          current1 = (if flush then [] else current) @ [sentence];
          current_len1 = (if flush then 0 else current_len) + (sentence_len + 1)
      in if current_len1 \<ge> target_chars
         then chunk_loop target_chars max_chars (chunks1 @ [strip (join newline current1)]) [] 0 rest
         else chunk_loop target_chars max_chars chunks1 current1 current_len1 rest)"

definition chunk_sentences :: "string list \<Rightarrow> int \<Rightarrow> int \<Rightarrow> string list" where
  "chunk_sentences sentences target_chars max_chars =
     chunk_loop target_chars max_chars [] [] 0 sentences"

text \<open>
  The same loop, recording the successive values of \<open>current\<close> at each flush instead of
  their joined text: the groups of sentences the chunks are made of.
\<close>

fun group_loop :: "int \<Rightarrow> int \<Rightarrow> string list list \<Rightarrow> string list \<Rightarrow> int \<Rightarrow> string list \<Rightarrow> string list list" where
  "group_loop target_chars max_chars groups current current_len [] =
     (if current \<noteq> [] then groups @ [current] else groups)"
| "group_loop target_chars max_chars groups current current_len (sentence # rest) =
     (let sentence_len = int (length sentence);
          flush = (current \<noteq> [] \<and> current_len + sentence_len + 1 > max_chars);
          groups1 = (if flush then groups @ [current] else groups);
          current1 = (if flush then [] else current) @ [sentence];
          current_len1 = (if flush then 0 else current_len) + (sentence_len + 1)
      in if current_len1 \<ge> target_chars
         then group_loop target_chars max_chars (groups1 @ [current1]) [] 0 rest
         else group_loop target_chars max_chars groups1 current1 current_len1 rest)"

definition chunk_groups :: "string list \<Rightarrow> int \<Rightarrow> int \<Rightarrow> string list list" where
  "chunk_groups sentences target_chars max_chars =
     group_loop target_chars max_chars [] [] 0 sentences"

definition group_text :: "string list \<Rightarrow> string" where
  "group_text g = strip (join newline g)"

definition weight :: "string list \<Rightarrow> int" where
  "weight g = (\<Sum>s\<leftarrow>g. int (length s) + 1)"

definition group_ok :: "int \<Rightarrow> string list \<Rightarrow> bool" where
  "group_ok m g = (g \<noteq> [] \<and> (length g = 1 \<or> weight g \<le> m))"

section \<open>Cell values: \<open>_maybe_split_list\<close>\<close>

datatype cell = CStr string | CList "string list"

text \<open>The comprehension \<open>[part.strip() for part in value.split(d) if part.strip()]\<close>.\<close>

definition split_parts :: "char \<Rightarrow> string \<Rightarrow> string list" where
  "split_parts d v = map strip (filter (\<lambda>part. strip part \<noteq> []) (split_on d v))"

fun maybe_split_list :: "cell \<Rightarrow> cell" where
  "maybe_split_list (CList xs) = CList xs"
| "maybe_split_list (CStr v) =
     (if CHR '';'' \<in> set v \<and> 1 < length (split_parts (CHR '';'') v)
      then CList (split_parts (CHR '';'') v)
      else if CHR '','' \<in> set v \<and> 1 < length (split_parts (CHR '','') v)
      then CList (split_parts (CHR '','') v)
      else CStr v)"

text \<open>
  The post-processing rule as the specification words it: try the semicolon first, then
  the comma, each time asking only whether at least two non-empty trimmed parts result.
\<close>

definition nonempty_trimmed_parts :: "char \<Rightarrow> string \<Rightarrow> string list" where
  "nonempty_trimmed_parts d v = filter (\<lambda>p. p \<noteq> []) (map strip (split_on d v))"

definition cell_value_spec :: "string \<Rightarrow> cell" where
  "cell_value_spec v =
     (if 2 \<le> length (nonempty_trimmed_parts (CHR '';'') v)
      then CList (nonempty_trimmed_parts (CHR '';'') v)
      else if 2 \<le> length (nonempty_trimmed_parts (CHR '','') v)
      then CList (nonempty_trimmed_parts (CHR '','') v)
      else CStr v)"

section \<open>The parsed HTML tree\<close>

text \<open>
  A BeautifulSoup tree: a \<open>NavigableString\<close> is \<open>Text\<close>, a \<open>Tag\<close> is \<open>Elem\<close> with its
  name, attributes and children. The soup itself is the list of its top-level nodes.
\<close>

datatype node = Text string | Elem string "(string \<times> string) list" "node list"

type_synonym path = "nat list"

text \<open>
  \<open>extract()\<close> detaches a subtree from its tree. The tree is kept as parsed and the
  detached subtrees are recorded by the paths of their roots (child indices from the top):
  \<open>walk det p n\<close> lists, in document order, the node \<open>n\<close> found at path \<open>p\<close> and
  everything below it that is still attached to it.
\<close>

fun walk :: "path list \<Rightarrow> path \<Rightarrow> node \<Rightarrow> (path \<times> node) list"
  and walk_children :: "path list \<Rightarrow> path \<Rightarrow> nat \<Rightarrow> node list \<Rightarrow> (path \<times> node) list" where
  "walk det p (Text s) = [(p, Text s)]"
| "walk det p (Elem t a cs) = (p, Elem t a cs) # walk_children det p 0 cs"
| "walk_children det p i [] = []"
| "walk_children det p i (c # cs) =
     (if p @ [i] \<in> set det then [] else walk det (p @ [i]) c) @ walk_children det p (Suc i) cs"

definition descendants :: "path list \<Rightarrow> path \<Rightarrow> node \<Rightarrow> (path \<times> node) list" where
  "descendants det p n = tl (walk det p n)"

definition has_name :: "string list \<Rightarrow> node \<Rightarrow> bool" where
  "has_name names n = (case n of Text _ \<Rightarrow> False | Elem t _ _ \<Rightarrow> t \<in> set names)"

text \<open>\<open>tag.find_all(names)\<close>, \<open>tag.find(names)\<close> and \<open>soup.find_all(names)\<close>.\<close>

definition find_all :: "path list \<Rightarrow> string list \<Rightarrow> path \<Rightarrow> node \<Rightarrow> (path \<times> node) list" where
  "find_all det names p n = filter (\<lambda>(q, m). has_name names m) (descendants det p n)"

definition find_first :: "path list \<Rightarrow> string list \<Rightarrow> path \<Rightarrow> node \<Rightarrow> (path \<times> node) option" where
  "find_first det names p n =
     (case find_all det names p n of [] \<Rightarrow> None | x # _ \<Rightarrow> Some x)"

definition soup_find_all :: "path list \<Rightarrow> string list \<Rightarrow> node list \<Rightarrow> (path \<times> node) list" where
  "soup_find_all det names soup =
     filter (\<lambda>(q, m). has_name names m) (walk_children det [] 0 soup)"

text \<open>
  \<open>tag.get_text(sep, strip=True)\<close>: the strings below the tag, each stripped, the empty
  ones skipped, joined by \<open>sep\<close>.
\<close>

definition strings_of :: "(path \<times> node) list \<Rightarrow> string list" where
  "strings_of ns = concat (map (\<lambda>(q, m). case m of Text s \<Rightarrow> [s] | Elem _ _ _ \<Rightarrow> []) ns)"

definition get_text :: "path list \<Rightarrow> string \<Rightarrow> path \<Rightarrow> node \<Rightarrow> string" where
  "get_text det sep p n =
     join sep (filter (\<lambda>s. s \<noteq> []) (map strip (strings_of (walk det p n))))"

fun node_at :: "node list \<Rightarrow> path \<Rightarrow> node option" where
  "node_at soup [] = None"
| "node_at soup [i] = (if i < length soup then Some (soup ! i) else None)"
| "node_at soup (i # j # p) =
     (if i < length soup
      then (case soup ! i of Text _ \<Rightarrow> None | Elem _ _ cs \<Rightarrow> node_at cs (j # p))
      else None)"

section \<open>Libraries outside the repository\<close>

text \<open>
  The converter calls BeautifulSoup's parser, markdownify, hashlib and the clock. They are
  parameters of the model: \<open>html_parser html\<close> is \<open>BeautifulSoup(html, "html.parser")\<close>,
  \<open>markdownify soup\<close> is \<open>md(str(soup), heading_style="ATX", convert=["table", "ol",
  "ul"])\<close>, \<open>sha256_hex\<close> is the hex digest of the UTF-8 encoding, and \<open>utc_now\<close> is the ISO
  text of the current time.
\<close>

record libs =
  html_parser :: "string \<Rightarrow> node list"
  markdownify :: "node list \<Rightarrow> string"
  sha256_hex :: "string \<Rightarrow> string"
  utc_now :: string

section \<open>Sanitizer and Markdown normalizer (\<open>conversion.py\<close>)\<close>

text \<open>\<open>for tag in soup(["script", "style"]): tag.decompose()\<close>.\<close>

fun decompose_named :: "string list \<Rightarrow> node \<Rightarrow> node list" where
  "decompose_named names (Text s) = [Text s]"
| "decompose_named names (Elem t a cs) =
     (if t \<in> set names then []
      else [Elem t a (concat (map (decompose_named names) cs))])"

text \<open>
  The macro loop visits the tags whose name contains a colon, in document order: the
  outermost one is replaced by its visible text (or dropped when that text is empty), which
  takes the tags inside it out of the tree with it.
\<close>

fun replace_macros :: "node \<Rightarrow> node list" where
  "replace_macros (Text s) = [Text s]"
| "replace_macros (Elem t a cs) =
     (if CHR '':'' \<in> set t
      then (let text_in = get_text [] '' '' [] (Elem t a cs)
            in if text_in \<noteq> [] then [Text text_in] else [])
      else [Elem t a (concat (map replace_macros cs))])"

text \<open>\<open>for tag in soup.find_all(["span", "div"]): tag.unwrap()\<close>.\<close>

fun unwrap_named :: "string list \<Rightarrow> node \<Rightarrow> node list" where
  "unwrap_named names (Text s) = [Text s]"
| "unwrap_named names (Elem t a cs) =
     (if t \<in> set names then concat (map (unwrap_named names) cs)
      else [Elem t a (concat (map (unwrap_named names) cs))])"

definition clean_html :: "libs \<Rightarrow> string \<Rightarrow> node list" where
  "clean_html L html =
     (let soup = html_parser L html;
          soup1 = concat (map (decompose_named [''script'', ''style'']) soup);
          soup2 = concat (map replace_macros soup1)
      in concat (map (unwrap_named [''span'', ''div'']) soup2))"

text \<open>
  \<open>re.sub(r"\n{3,}", "\n\n", markdown)\<close>: \<open>k\<close> counts the newlines of the run being read.
\<close>

definition emit_newlines :: "nat \<Rightarrow> string" where
  "emit_newlines k = (if 3 \<le> k then [CHR 0x0A, CHR 0x0A] else replicate k (CHR 0x0A))"

fun collapse_newlines :: "nat \<Rightarrow> string \<Rightarrow> string" where
  "collapse_newlines k [] = emit_newlines k"
| "collapse_newlines k (c # cs) =
     (if c = CHR 0x0A then collapse_newlines (Suc k) cs
      else emit_newlines k @ c # collapse_newlines 0 cs)"

definition html_to_markdown :: "libs \<Rightarrow> node list \<Rightarrow> string" where
  "html_to_markdown L soup = strip (collapse_newlines 0 (markdownify L soup))"

section \<open>Section segmenter\<close>

text \<open>
  An extracted table: a row is a Python dict from column key to cell value, kept as an
  association list in insertion order.
\<close>

record table =
  columns :: "string list"
  display_columns :: "string list"
  rows :: "(string \<times> cell) list list"

record Section =
  sec_id :: string
  sec_title :: string
  body_md :: string
  anchors :: "string list"
  table_json :: "table list option"

text \<open>
  \<open>heading_pattern = re.compile(r"^(#{1,3})\s+(.*)")\<close>: one to three hashes followed at
  once by whitespace; the second group is what follows the whole whitespace run.
\<close>

definition heading_match :: "string \<Rightarrow> string option" where
  "heading_match line =
     (let hashes = takeWhile (\<lambda>c. c = CHR ''#'') line;
          after = dropWhile (\<lambda>c. c = CHR ''#'') line
      in if 1 \<le> length hashes \<and> length hashes \<le> 3 \<and> takeWhile py_isspace after \<noteq> []
         then Some (dropWhile py_isspace after) else None)"

definition flush_section :: "string \<Rightarrow> string list \<Rightarrow> Section" where
  "flush_section title_in lines =
     (let body = strip (join newline lines);
          slug = slugify_text title_in ''-''
      in \<lparr>sec_id = slug,
          sec_title = (if strip title_in \<noteq> [] then strip title_in else ''Untitled Section''),
          body_md = body,
          anchors = [slug],
          table_json = None\<rparr>)"

fun sections_loop :: "Section list \<Rightarrow> string \<Rightarrow> string list \<Rightarrow> string list \<Rightarrow> Section list" where
  "sections_loop sections current_title current_lines [] =
     sections @ [flush_section current_title current_lines]"
| "sections_loop sections current_title current_lines (line # rest) =
     (case heading_match line of
        Some g \<Rightarrow>
          (let sections1 = (if current_lines \<noteq> []
                            then sections @ [flush_section current_title current_lines]
                            else sections);
               heading = strip g
           in sections_loop sections1
                (if heading \<noteq> [] then heading else ''Untitled Section'') [] rest)
      | None \<Rightarrow> sections_loop sections current_title (current_lines @ [line]) rest)"

definition split_sections :: "string \<Rightarrow> Section list" where
  "split_sections markdown =
     (if strip markdown = []
      then [\<lparr>sec_id = ''overview'', sec_title = ''Overview'', body_md = [],
             anchors = [''overview''], table_json = None\<rparr>]
      else sections_loop [] ''Overview'' [] (py_splitlines markdown))"

section \<open>Table extractor\<close>

text \<open>Python dicts as association lists in insertion order: \<open>d[k] = v\<close>.\<close>

fun dict_set :: "'k \<Rightarrow> 'v \<Rightarrow> ('k \<times> 'v) list \<Rightarrow> ('k \<times> 'v) list" where
  "dict_set k v [] = [(k, v)]"
| "dict_set k v ((k', v') # d) = (if k' = k then (k, v) # d else (k', v') # dict_set k v d)"

text \<open>\<open>mapping.setdefault(k, []).append(v)\<close>.\<close>

fun dict_append :: "'k \<Rightarrow> 'v \<Rightarrow> ('k \<times> 'v list) list \<Rightarrow> ('k \<times> 'v list) list" where
  "dict_append k v [] = [(k, [v])]"
| "dict_append k v ((k', vs) # d) =
     (if k' = k then (k, vs @ [v]) # d else (k', vs) # dict_append k v d)"

definition column_name :: "nat \<Rightarrow> string" where
  "column_name n = ''Column '' @ str_nat n"

text \<open>The loop over the header cells.\<close>

fun headers_loop ::
  "path list \<Rightarrow> string list \<Rightarrow> string list \<Rightarrow> (path \<times> node) list \<Rightarrow> string list \<times> string list" where
  "headers_loop det headers display_headers [] = (headers, display_headers)"
| "headers_loop det headers display_headers ((q, header_cell) # rest) =
     (let t = get_text det '' '' q header_cell;
          text_in = (if t \<noteq> [] then t else column_name (length headers + 1))
      in headers_loop det (headers @ [slugify_text text_in ''-''])
           (display_headers @ [text_in]) rest)"

text \<open>\<open>while idx >= len(headers)\<close>: synthesize further column names.\<close>

function grow_headers :: "nat \<Rightarrow> string list \<Rightarrow> string list \<Rightarrow> string list \<times> string list" where
  "grow_headers idx headers display_headers =
     (if idx \<ge> length headers
      then (let fallback_name = column_name (length headers + 1)
            in grow_headers idx (headers @ [slugify_text fallback_name ''-''])
                 (display_headers @ [fallback_name]))
      else (headers, display_headers))"
  by pat_completeness auto
termination
  by (relation "measure (\<lambda>(idx, headers, display_headers). Suc idx - length headers)") auto

declare grow_headers.simps [simp del]

text \<open>
  The loop over the cells of one row; \<open>headers ! idx\<close> is in range after
  \<open>grow_headers\<close>.
\<close>

fun cells_loop ::
  "path list \<Rightarrow> string list \<Rightarrow> string list \<Rightarrow> (string \<times> cell) list \<Rightarrow> nat \<Rightarrow> (path \<times> node) list
   \<Rightarrow> string list \<times> string list \<times> (string \<times> cell) list" where
  "cells_loop det headers display_headers row_data idx [] = (headers, display_headers, row_data)"
| "cells_loop det headers display_headers row_data idx ((q, c) # rest) =
     (case grow_headers idx headers display_headers of
        (headers1, display1) \<Rightarrow>
          (let key = headers1 ! idx;
               v = maybe_split_list (CStr (get_text det '' '' q c))
           in cells_loop det headers1 display1 (dict_set key v row_data) (Suc idx) rest))"

fun rows_loop ::
  "path list \<Rightarrow> string list \<Rightarrow> string list \<Rightarrow> (string \<times> cell) list list \<Rightarrow> (path \<times> node) list
   \<Rightarrow> string list \<times> string list \<times> (string \<times> cell) list list" where
  "rows_loop det headers display_headers body_rows [] = (headers, display_headers, body_rows)"
| "rows_loop det headers display_headers body_rows ((q, row) # rest) =
     (let cells = find_all det [''td'', ''th''] q row
      in if cells = [] then rows_loop det headers display_headers body_rows rest
         else (case cells_loop det headers display_headers [] 0 cells of
                 (headers1, display1, row_data) \<Rightarrow>
                   rows_loop det headers1 display1
                     (if row_data \<noteq> [] then body_rows @ [row_data] else body_rows) rest))"

text \<open>
  \<open>_extract_table\<close> on the table found at path \<open>p\<close>. When the table has no \<open>th\<close> cell
  and its first row has \<open>td\<close> cells, that row is extracted: its path joins the detached
  ones, which are returned with the table.
\<close>

definition header_cells_of ::
  "path list \<Rightarrow> path \<Rightarrow> node \<Rightarrow> (path \<times> node) list \<times> path list" where
  "header_cells_of det p tbl =
     (let ths = find_all det [''th''] p tbl
      in if ths = []
         then (case find_first det [''tr''] p tbl of
                 None \<Rightarrow> ([], det)
               | Some (q, first_row) \<Rightarrow>
                   (let tds = find_all det [''td''] q first_row
                    in (tds, if tds \<noteq> [] then q # det else det)))
         else (ths, det))"

definition extract_table :: "path list \<Rightarrow> path \<Rightarrow> node \<Rightarrow> table \<times> path list" where
  "extract_table det p tbl =
     (case header_cells_of det p tbl of
        (header_cells, det1) \<Rightarrow>
          (case headers_loop det1 [] [] header_cells of
             (headers, display_headers) \<Rightarrow>
               (case rows_loop det1 headers display_headers []
                       (find_all det1 [''tr''] p tbl) of
                  (headers1, display1, body_rows) \<Rightarrow>
                    (\<lparr>columns = headers1, display_columns = display1, rows = body_rows\<rparr>,
                     det1))))"

text \<open>
  \<open>table.find_previous(HEADING_TAGS)\<close>: the nearest earlier element, in document order,
  of the tree the table is attached to (the soup, or the extracted row it lies in).
\<close>

definition HEADING_TAGS :: "string list" where
  "HEADING_TAGS = [''h1'', ''h2'', ''h3'']"

definition component_root :: "path list \<Rightarrow> path \<Rightarrow> path option" where
  "component_root det p =
     find (\<lambda>r. r \<in> set det) (rev (map (\<lambda>k. take k p) [1..<Suc (length p)]))"

definition previous_elements :: "node list \<Rightarrow> path list \<Rightarrow> path \<Rightarrow> (path \<times> node) list" where
  "previous_elements soup det p =
     (let attached =
        (case component_root det p of
           None \<Rightarrow> walk_children det [] 0 soup
         | Some r \<Rightarrow> (case node_at soup r of None \<Rightarrow> [] | Some n \<Rightarrow> walk det r n))
      in rev (takeWhile (\<lambda>(q, m). q \<noteq> p) attached))"

definition find_previous ::
  "node list \<Rightarrow> path list \<Rightarrow> string list \<Rightarrow> path \<Rightarrow> (path \<times> node) option" where
  "find_previous soup det names p =
     (case filter (\<lambda>(q, m). has_name names m) (previous_elements soup det p) of
        [] \<Rightarrow> None
      | x # _ \<Rightarrow> Some x)"

fun tables_loop ::
  "node list \<Rightarrow> path list \<Rightarrow> (string \<times> table list) list \<Rightarrow> (path \<times> node) list
   \<Rightarrow> (string \<times> table list) list" where
  "tables_loop soup det mapping [] = mapping"
| "tables_loop soup det mapping ((p, tbl) # rest) =
     (let section_id =
        (case find_previous soup det HEADING_TAGS p of
           None \<Rightarrow> ''overview''
         | Some (q, heading) \<Rightarrow>
             (if get_text det [] q heading \<noteq> []
              then slugify_text (get_text det [] q heading) ''-''
              else ''overview''))
      in (case extract_table det p tbl of
            (table_data, det1) \<Rightarrow>
              tables_loop soup det1 (dict_append section_id table_data mapping) rest))"

definition map_tables_to_sections :: "node list \<Rightarrow> (string \<times> table list) list" where
  "map_tables_to_sections soup = tables_loop soup [] [] (soup_find_all [] [''table''] soup)"

section \<open>Document and chunk assembler\<close>

text \<open>
  The page record as the fetch client delivers it. A field that may be missing is an
  option; \<open>p_body\<close> is \<open>body.storage.value\<close>, each level of which may be missing;
  \<open>p_ancestors\<close> holds the title of each ancestor; \<open>p_webui\<close> is \<open>_links.webui\<close>.
\<close>

datatype pyscalar = PStr string | PInt int

definition py_str :: "pyscalar option \<Rightarrow> string" where
  "py_str v = (case v of None \<Rightarrow> ''None'' | Some (PStr s) \<Rightarrow> s | Some (PInt i) \<Rightarrow> str_int i)"

record version_info =
  v_number :: "pyscalar option"
  v_when :: "string option"

record page =
  p_id :: "pyscalar option"
  p_title :: "string option"
  p_version :: "version_info option"
  p_ancestors :: "string option list"
  p_webui :: "string option"
  p_body :: "string option option option"

record section_payload =
  sp_id :: string
  sp_title :: string
  sp_body_md :: string
  sp_anchors :: "string list"
  sp_table_json :: "table list option"

record chunk =
  chunk_id :: string
  section_id :: string
  rank :: nat
  chunk_text :: string
  chunk_keywords :: "string list"
  chunk_anchors :: "string list"
  text_hash :: string

record source_info =
  src_system :: string
  src_space :: string
  src_page_id :: string
  src_canonical_url :: "string option"
  src_imported_at :: string

record history_entry =
  h_version :: string
  h_changed_at :: string
  h_notes :: string

record doc =
  doc_id :: string
  doc_slug :: string
  doc_title :: string
  doc_version :: string
  doc_language :: string
  doc_status :: string
  doc_audience :: "string list"
  doc_tags :: "string list"
  doc_domain :: "string list"
  doc_source :: source_info
  doc_owners :: "string list"
  doc_environments :: "string list"
  doc_customers :: "string list"
  doc_carriers :: "string list"
  doc_pii :: bool
  doc_confidential :: string
  doc_history :: "history_entry list"
  doc_sections :: "section_payload list"
  doc_chunks :: "chunk list"
  doc_related :: "string list"

definition page_title :: "page \<Rightarrow> string" where
  "page_title pg = (case p_title pg of None \<Rightarrow> ''Untitled Page'' | Some t \<Rightarrow> t)"

definition ancestor_titles :: "page \<Rightarrow> string list" where
  "ancestor_titles pg = map (\<lambda>a. case a of None \<Rightarrow> [] | Some t \<Rightarrow> t) (p_ancestors pg)"

definition page_slug :: "page \<Rightarrow> string" where
  "page_slug pg = slugify_path (ancestor_titles pg @ [page_title pg])"

text \<open>\<open>page_id[-4:].rjust(4, "0")\<close>.\<close>

definition last4_of :: "string \<Rightarrow> string" where
  "last4_of page_id =
     (let tail = drop (length page_id - 4) page_id
      in replicate (4 - length tail) (CHR ''0'') @ tail)"

definition make_doc_id :: "string \<Rightarrow> string \<Rightarrow> string \<Rightarrow> string" where
  "make_doc_id space slug page_id =
     space @ ''-'' @ map (\<lambda>c. if c = CHR ''/'' then CHR ''-'' else c) slug @ ''-'' @ last4_of page_id"

definition attach_tables :: "(string \<times> table list) list \<Rightarrow> Section \<Rightarrow> Section" where
  "attach_tables table_mapping s =
     (case map_of table_mapping (sec_id s) of
        None \<Rightarrow> s
      | Some tables \<Rightarrow> (if tables \<noteq> [] then s\<lparr>table_json := Some tables\<rparr> else s))"

definition payload_of :: "Section \<Rightarrow> section_payload" where
  "payload_of s =
     \<lparr>sp_id = sec_id s, sp_title = sec_title s, sp_body_md = body_md s, sp_anchors = anchors s,
      sp_table_json = (case table_json s of
                         None \<Rightarrow> None
                       | Some tables \<Rightarrow> (if tables \<noteq> [] then Some tables else None))\<rparr>"

definition make_chunk_id :: "string \<Rightarrow> string \<Rightarrow> nat \<Rightarrow> string" where
  "make_chunk_id d sid r = d @ ''::'' @ sid @ ''#'' @ str_nat r"

text \<open>
  The chunking pass carries \<open>chunks\<close>, \<open>chunk_index\<close> and \<open>rank\<close> through the loop over
  the chunk texts of one section, and through the loop over the sections.
\<close>

fun section_chunks_loop ::
  "libs \<Rightarrow> string \<Rightarrow> Section \<Rightarrow> string list \<Rightarrow> chunk list \<times> (string \<times> string) list \<times> nat
   \<Rightarrow> string list \<Rightarrow> chunk list \<times> (string \<times> string) list \<times> nat" where
  "section_chunks_loop L d s kws st [] = st"
| "section_chunks_loop L d s kws (chunks, chunk_index, rk) (chunk_text_in # rest) =
     (let cid = make_chunk_id d (sec_id s) rk;
          th = sha256_hex L chunk_text_in;
          chunk_payload = \<lparr>chunk_id = cid, section_id = sec_id s, rank = rk,
                           chunk_text = chunk_text_in, chunk_keywords = kws,
                           chunk_anchors = anchors s, text_hash = th\<rparr>
      in section_chunks_loop L d s kws
           (chunks @ [chunk_payload], dict_set cid th chunk_index, rk + 1) rest)"

fun chunks_loop ::
  "libs \<Rightarrow> string \<Rightarrow> string list \<Rightarrow> chunk list \<times> (string \<times> string) list \<times> nat
   \<Rightarrow> Section list \<Rightarrow> chunk list \<times> (string \<times> string) list \<times> nat" where
  "chunks_loop L d doc_keywords st [] = st"
| "chunks_loop L d doc_keywords st (s # rest) =
     (let kws = sort (remdups (doc_keywords @ [slugify_text (sec_title s) ''-'']
                                @ [''sandbox'', ''production'']))
      in if strip (body_md s) = [] then chunks_loop L d doc_keywords st rest
         else chunks_loop L d doc_keywords
                (section_chunks_loop L d s kws st
                   (chunk_sentences (split_into_sentences (body_md s)) 2000 3600))
                rest)"

definition build_document ::
  "libs \<Rightarrow> page \<Rightarrow> string \<Rightarrow> Section list \<Rightarrow> (string \<times> table list) list \<Rightarrow> string \<Rightarrow> string
   \<Rightarrow> doc \<times> chunk list \<times> (string \<times> string) list" where
  "build_document L pg markdown sections table_mapping space base_url =
     (let page_id = py_str (p_id pg);
          title_in = page_title pg;
          version_number =
            (case p_version pg of
               None \<Rightarrow> ''1''
             | Some vi \<Rightarrow> (case v_number vi of None \<Rightarrow> ''1'' | Some n \<Rightarrow> py_str (Some n)));
          version_when = (case p_version pg of None \<Rightarrow> None | Some vi \<Rightarrow> v_when vi);
          slug = page_slug pg;
          d = make_doc_id space slug page_id;
          canonical_url =
            (case p_webui pg of
               None \<Rightarrow> None
             | Some webui \<Rightarrow> (if webui \<noteq> [] then Some (base_url @ webui) else None));
          imported_at = utc_now L;
          sections1 = map (attach_tables table_mapping) sections;
          sections_payload = map payload_of sections1;
          doc_keywords = [slugify_text title_in ''-'', py_lower space, space];
          result = chunks_loop L d doc_keywords ([], [], 0) sections1;
          chunks = fst result;
          chunk_index = fst (snd result)
      in (\<lparr>doc_id = d, doc_slug = slug, doc_title = title_in, doc_version = version_number,
           doc_language = ''en-GB'', doc_status = ''published'',
           doc_audience = [''internal-support''],
           doc_tags = [slugify_text title_in ''-'', space], doc_domain = [''sorted''],
           doc_source = \<lparr>src_system = ''Confluence'', src_space = space, src_page_id = page_id,
                          src_canonical_url = canonical_url, src_imported_at = imported_at\<rparr>,
           doc_owners = [''Support Ops''],
           doc_environments = [''Sandbox'', ''Production''],
           doc_customers = [''*''], doc_carriers = [''*''],
           doc_pii = False, doc_confidential = ''internal'',
           doc_history = [\<lparr>h_version = version_number,
                            h_changed_at = (case version_when of
                                              None \<Rightarrow> imported_at
                                            | Some w \<Rightarrow> (if w \<noteq> [] then w else imported_at)),
                            h_notes = ''Imported''\<rparr>],
           doc_sections = sections_payload, doc_chunks = chunks, doc_related = []\<rparr>,
          chunks, chunk_index))"

definition body_html :: "page \<Rightarrow> string" where
  "body_html pg =
     (case p_body pg of
        Some (Some (Some html)) \<Rightarrow> html
      | _ \<Rightarrow> [])"

definition convert_page ::
  "libs \<Rightarrow> page \<Rightarrow> string \<Rightarrow> string \<Rightarrow> doc \<times> chunk list \<times> (string \<times> string) list" where
  "convert_page L pg space base_url =
     (let body = body_html pg;
          soup = clean_html L body;
          markdown = html_to_markdown L soup;
          sections = split_sections markdown;
          table_mapping = map_tables_to_sections soup
      in build_document L pg markdown sections table_mapping space base_url)"

section \<open>Index diffing in \<open>main\<close> (\<open>converter.py\<close>)\<close>

text \<open>
  \<open>changed_chunks = sum(1 for cid, thash in chunk_index.items() if previous_index.get(cid)
  != thash)\<close> and \<open>removed_chunks = len(set(previous_index.keys()) -
  set(chunk_index.keys()))\<close>.
\<close>

definition changed_ids :: "(string \<times> string) list \<Rightarrow> (string \<times> string) list \<Rightarrow> string list" where
  "changed_ids previous_index chunk_index =
     map fst (filter (\<lambda>(cid, thash). map_of previous_index cid \<noteq> Some thash) chunk_index)"

definition changed_chunks :: "(string \<times> string) list \<Rightarrow> (string \<times> string) list \<Rightarrow> nat" where
  "changed_chunks previous_index chunk_index =
     sum_list (map (\<lambda>cid. 1) (changed_ids previous_index chunk_index))"

definition removed_ids :: "(string \<times> string) list \<Rightarrow> (string \<times> string) list \<Rightarrow> string set" where
  "removed_ids previous_index chunk_index =
     set (map fst previous_index) - set (map fst chunk_index)"

definition removed_chunks :: "(string \<times> string) list \<Rightarrow> (string \<times> string) list \<Rightarrow> nat" where
  "removed_chunks previous_index chunk_index = card (removed_ids previous_index chunk_index)"

section \<open>Auxiliary notions for the statements\<close>

text \<open>
  The sentence boundaries as the specification words them: a boundary is a position where
  one of \<open>.!?\<close> is followed by whitespace and then an uppercase letter or digit.
  \<open>has_boundary s\<close> says that \<open>s\<close> contains one; \<open>split_at_boundaries s segs\<close> says
  that \<open>segs\<close> are the pieces of \<open>s\<close> cut at every boundary, each cut removing the
  whitespace between the terminator and the next piece.
\<close>

fun has_boundary :: "string \<Rightarrow> bool" where
  "has_boundary [] = False"
| "has_boundary (p # s) = ((is_terminator p \<and> gap_then_start s) \<or> has_boundary s)"

inductive split_at_boundaries :: "string \<Rightarrow> string list \<Rightarrow> bool" where
  whole: "\<not> has_boundary s \<Longrightarrow> split_at_boundaries s [s]"
| cut: "is_terminator p \<Longrightarrow> ws \<noteq> [] \<Longrightarrow> list_all py_isspace ws \<Longrightarrow> is_upper_or_digit r \<Longrightarrow>
        \<not> has_boundary (a @ [p]) \<Longrightarrow> split_at_boundaries (r # b) segs \<Longrightarrow>
        split_at_boundaries (a @ p # ws @ r # b) ((a @ [p]) # segs)"

text \<open>Reading a decimal numeral back, the inverse of \<open>str_nat\<close>.\<close>

definition nat_of_digits :: "string \<Rightarrow> nat" where
  "nat_of_digits ds = foldl (\<lambda>a c. 10 * a + (of_char c - 48)) 0 ds"

text \<open>
  A well-formed cell value: a string, or a list of at least two parts, each non-empty and
  without leading or trailing whitespace.
\<close>

definition cell_ok :: "cell \<Rightarrow> bool" where
  "cell_ok c =
     (case c of
        CStr _ \<Rightarrow> True
      | CList ps \<Rightarrow> 2 \<le> length ps \<and>
          list_all (\<lambda>p. p \<noteq> [] \<and> \<not> py_isspace (hd p) \<and> \<not> py_isspace (last p)) ps)"

text \<open>
  The invariant of the chunking pass: the next rank is the number of chunks emitted so far,
  the ranks emitted are \<open>0, 1, ...\<close> in order, and each identifier is built from the
  chunk's own section id and rank.
\<close>

definition ranks_ok :: "string \<Rightarrow> chunk list \<times> (string \<times> string) list \<times> nat \<Rightarrow> bool" where
  "ranks_ok d st =
     (case st of (chunks, chunk_index, rk) \<Rightarrow>
        rk = length chunks \<and> map rank chunks = [0..<length chunks] \<and>
        map chunk_id chunks = map (\<lambda>c. make_chunk_id d (section_id c) (rank c)) chunks)"

text \<open>
  Sample inputs: libraries that parse and render everything to nothing, and a page record
  without a body.
\<close>

definition empty_libs :: libs where
  "empty_libs = \<lparr>html_parser = (\<lambda>html. []), markdownify = (\<lambda>soup. []),
                  sha256_hex = (\<lambda>s. s), utc_now = ''2024-01-01T00:00:00+00:00''\<rparr>"

definition bare_page :: page where
  "bare_page = \<lparr>p_id = Some (PStr ''12345''), p_title = Some ''Release Notes'',
                 p_version = None, p_ancestors = [Some ''Home''], p_webui = None,
                 p_body = None\<rparr>"


section \<open>The tables of the specification's round-trip example\<close>

text \<open>
  The table with header row \<open>Name\<close>, \<open>Tags\<close> and data row \<open>Widget\<close>, \<open>red, blue\<close>:
  once with the header in \<open>th\<close> cells, once with the header in \<open>td\<close> cells.
\<close>

definition th_header_table :: node where
  "th_header_table = Elem ''table'' []
     [Elem ''tr'' [] [Elem ''th'' [] [Text ''Name''], Elem ''th'' [] [Text ''Tags'']],
      Elem ''tr'' [] [Elem ''td'' [] [Text ''Widget''], Elem ''td'' [] [Text ''red, blue'']]]"

definition td_header_table :: node where
  "td_header_table = Elem ''table'' []
     [Elem ''tr'' [] [Elem ''td'' [] [Text ''Name''], Elem ''td'' [] [Text ''Tags'']],
      Elem ''tr'' [] [Elem ''td'' [] [Text ''Widget''], Elem ''td'' [] [Text ''red, blue'']]]"

section \<open>Facts about the string primitives\<close>

lemma split_on_not_Nil: "split_on d s \<noteq> []"
  by (induction s) (auto split: list.splits)

lemma split_on_no_sep: "d \<notin> set s \<Longrightarrow> split_on d s = [s]"
  by (induction s) auto

lemma split_parts_eq: "split_parts d v = nonempty_trimmed_parts d v"
  by (simp add: split_parts_def nonempty_trimmed_parts_def filter_map comp_def)

lemma split_parts_no_sep: "d \<notin> set v \<Longrightarrow> length (split_parts d v) \<le> 1"
  by (simp add: split_parts_def split_on_no_sep)

section \<open>Claims about \<open>_maybe_split_list\<close>\<close>

text \<open>
  C6: for every cell value string, if splitting on the semicolon yields at least two
  non-empty trimmed parts the cell becomes that list; otherwise, if splitting on the comma
  does, it becomes that list; otherwise the string is kept unchanged. The semicolon has
  priority, and parts obtained from one delimiter are never split again by the other.
\<close>

theorem maybe_split_list_refines_spec:
  "maybe_split_list (CStr v) = cell_value_spec v"
proof -
  have semi: "CHR '';'' \<notin> set v \<Longrightarrow> \<not> 2 \<le> length (nonempty_trimmed_parts (CHR '';'') v)"
    using split_parts_no_sep [of "CHR '';''" v] by (simp add: split_parts_eq)
  have comma: "CHR '','' \<notin> set v \<Longrightarrow> \<not> 2 \<le> length (nonempty_trimmed_parts (CHR '','') v)"
    using split_parts_no_sep [of "CHR '',''" v] by (simp add: split_parts_eq)
  show ?thesis
    using semi comma by (auto simp: cell_value_spec_def split_parts_eq)
qed

section \<open>Claims about the chunk grouper\<close>

lemma chunk_loop_append:
  "chunk_loop t m cs cur len ss = cs @ chunk_loop t m [] cur len ss"
proof (induction ss arbitrary: cs cur len)
  case Nil
  then show ?case by simp
next
  case (Cons s ss)
  show ?case
    apply (simp add: Let_def)
    apply (intro conjI impI)
    apply (subst Cons.IH, subst (2) Cons.IH, simp)+
    done
qed

lemma group_loop_append:
  "group_loop t m gs cur len ss = gs @ group_loop t m [] cur len ss"
proof (induction ss arbitrary: gs cur len)
  case Nil
  then show ?case by simp
next
  case (Cons s ss)
  show ?case
    apply (simp add: Let_def)
    apply (intro conjI impI)
    apply (subst Cons.IH, subst (2) Cons.IH, simp)+
    done
qed

lemma chunk_loop_groups:
  "chunk_loop t m [] cur len ss = map group_text (group_loop t m [] cur len ss)"
proof (induction ss arbitrary: cur len)
  case Nil
  then show ?case by (simp add: group_text_def)
next
  case (Cons s ss)
  show ?case
    apply (simp add: Let_def)
    apply (intro conjI impI)
    apply (subst chunk_loop_append, subst group_loop_append, simp add: Cons.IH group_text_def)+
    done
qed

lemma group_loop_concat:
  "concat (group_loop t m gs cur len ss) = concat gs @ cur @ ss"
  by (induction ss arbitrary: gs cur len) (simp_all add: Let_def)

lemma group_loop_ok:
  "list_all (group_ok m) gs \<Longrightarrow> len = weight cur \<Longrightarrow> cur = [] \<or> group_ok m cur \<Longrightarrow>
   list_all (group_ok m) (group_loop t m gs cur len ss)"
proof (induction ss arbitrary: gs cur len)
  case Nil
  then show ?case by auto
next
  case (Cons s ss)
  show ?case
    apply (simp add: Let_def)
    apply (intro conjI impI)
    apply (rule Cons.IH; use Cons.prems in \<open>auto simp: group_ok_def weight_def\<close>)+
    done
qed

lemma length_join: "g \<noteq> [] \<Longrightarrow> int (length (join newline g)) = weight g - 1"
proof (induction g)
  case Nil
  then show ?case by simp
next
  case (Cons x xs)
  then show ?case by (cases xs) (auto simp: weight_def newline_def)
qed

lemma length_strip_le: "length (strip s) \<le> length s"
  unfolding strip_def lstrip_def rstrip_def
  by (metis length_dropWhile_le length_rev order_trans)


lemma chunk_sentences_groups:
  "chunk_sentences ss t m = map group_text (chunk_groups ss t m)"
  by (simp add: chunk_sentences_def chunk_groups_def chunk_loop_groups)

lemma chunk_groups_concat: "concat (chunk_groups ss t m) = ss"
  by (simp add: chunk_groups_def group_loop_concat)

lemma chunk_groups_ok: "g \<in> set (chunk_groups ss t m) \<Longrightarrow> group_ok m g"
  using group_loop_ok [of m "[]" 0 "[]" t ss]
  by (simp add: chunk_groups_def weight_def list_all_iff)

lemma weight_nonneg: "0 \<le> weight g"
  by (induction g) (auto simp: weight_def)

lemma weight_member: "s \<in> set g \<Longrightarrow> int (length s) + 1 \<le> weight g"
proof (induction g)
  case Nil
  then show ?case by simp
next
  case (Cons x xs)
  have w: "weight (x # xs) = int (length x) + 1 + weight xs" by (simp add: weight_def)
  show ?case
  proof (cases "s = x")
    case True
    then show ?thesis using weight_nonneg [of xs] w by simp
  next
    case False
    then show ?thesis using Cons w by simp
  qed
qed

lemma group_ok_bound:
  assumes "group_ok m g"
  shows "int (length (group_text g)) \<le> m \<or> (\<exists>s. g = [s] \<and> m < int (length s))"
proof (cases "length g = 1")
  case True
  then obtain s where g: "g = [s]" by (cases g) auto
  have "length (group_text g) \<le> length s"
    by (simp add: g group_text_def length_strip_le)
  then show ?thesis using g by (cases "m < int (length s)") auto
next
  case False
  with assms have ne: "g \<noteq> []" and w: "weight g \<le> m" by (auto simp: group_ok_def)
  have "int (length (group_text g)) \<le> int (length (join newline g))"
    by (simp add: group_text_def length_strip_le)
  also have "\<dots> = weight g - 1" by (rule length_join [OF ne])
  finally show ?thesis using w by simp
qed

lemma group_ok_alone:
  assumes "group_ok m g" "s \<in> set g" "m < int (length s)"
  shows "g = [s]"
proof -
  have "\<not> weight g \<le> m" using weight_member [OF assms(2)] assms(3) by simp
  with assms(1) have "length g = 1" by (auto simp: group_ok_def)
  with assms(2) show ?thesis by (cases g) auto
qed

text \<open>
  C4: every chunk returned by the chunk grouper has at most 3600 characters, unless it
  consists of a single sentence that is itself longer than 3600 characters; such a sentence
  is emitted alone as its own chunk and is never split. The chunks are the joined and
  stripped texts of the groups, which partition the input sequence in order.
\<close>

theorem chunk_size_bound:
  "chunk_sentences ss 2000 3600 = map group_text (chunk_groups ss 2000 3600)
   \<and> concat (chunk_groups ss 2000 3600) = ss
   \<and> (\<forall>g\<in>set (chunk_groups ss 2000 3600).
        length (group_text g) \<le> 3600 \<or> (\<exists>s. g = [s] \<and> 3600 < length s))
   \<and> (\<forall>g\<in>set (chunk_groups ss 2000 3600). \<forall>s\<in>set g. 3600 < length s \<longrightarrow> g = [s])
   \<and> (\<forall>c\<in>set (chunk_sentences ss 2000 3600).
        length c \<le> 3600 \<or> (\<exists>s\<in>set ss. 3600 < length s \<and> c = strip s))"
proof (intro conjI ballI impI)
  show "chunk_sentences ss 2000 3600 = map group_text (chunk_groups ss 2000 3600)"
    by (rule chunk_sentences_groups)
  show "concat (chunk_groups ss 2000 3600) = ss"
    by (rule chunk_groups_concat)
next
  fix g assume g: "g \<in> set (chunk_groups ss 2000 3600)"
  show "length (group_text g) \<le> 3600 \<or> (\<exists>s. g = [s] \<and> 3600 < length s)"
    using group_ok_bound [OF chunk_groups_ok [OF g]] by auto
next
  fix g s assume "g \<in> set (chunk_groups ss 2000 3600)" "s \<in> set g" "3600 < length s"
  then show "g = [s]"
    using group_ok_alone [OF chunk_groups_ok, of g ss 2000 3600 s] by simp
next
  fix c assume "c \<in> set (chunk_sentences ss 2000 3600)"
  then obtain g where g: "g \<in> set (chunk_groups ss 2000 3600)" and c: "c = group_text g"
    by (auto simp: chunk_sentences_groups)
  have "set g \<subseteq> set ss"
    using g chunk_groups_concat [of ss 2000 3600] by (metis set_concat UN_upper)
  then show "length c \<le> 3600 \<or> (\<exists>s\<in>set ss. 3600 < length s \<and> c = strip s)"
    using group_ok_bound [OF chunk_groups_ok [OF g]] c
    by (auto simp: group_text_def)
qed

theorem chunk_size_bound_witness:
  "chunk_sentences [''ab'', ''c''] 2000 3600 = [[CHR ''a'', CHR ''b'', CHR 0x0A, CHR ''c'']]
   \<and> chunk_groups [''ab'', ''c''] 2000 3600 = [[''ab'', ''c'']]
   \<and> length (group_text [''ab'', ''c'']) \<le> 3600"
  using chunk_size_bound [of "[''ab'', ''c'']"]
  by (simp add: chunk_groups_def group_text_def newline_def strip_def lstrip_def rstrip_def py_isspace_def)

lemma strip_id:
  assumes "s \<noteq> []" "\<not> py_isspace (hd s)" "\<not> py_isspace (last s)"
  shows "strip s = s"
proof -
  have "dropWhile py_isspace (rev s) = rev s"
    using assms by (cases "rev s") (auto simp: last_rev [symmetric] hd_rev)
  then have "rstrip s = s" by (simp add: rstrip_def)
  moreover have "dropWhile py_isspace s = s" using assms by (cases s) auto
  ultimately show ?thesis by (simp add: strip_def lstrip_def)
qed

lemma strip_ends:
  assumes "strip s \<noteq> []"
  shows "\<not> py_isspace (hd (strip s)) \<and> \<not> py_isspace (last (strip s))"
proof -
  let ?r = "rstrip s"
  have ne: "dropWhile py_isspace ?r \<noteq> []" using assms by (simp add: strip_def lstrip_def)
  then have h: "\<not> py_isspace (hd (dropWhile py_isspace ?r))" by (rule hd_dropWhile)
  have rne: "dropWhile py_isspace (rev s) \<noteq> []"
  proof
    assume "dropWhile py_isspace (rev s) = []"
    then have "?r = []" by (simp add: rstrip_def)
    with ne show False by simp
  qed
  have "\<not> py_isspace (hd (dropWhile py_isspace (rev s)))" using rne by (rule hd_dropWhile)
  then have l: "\<not> py_isspace (last ?r)"
    using rne by (simp add: rstrip_def last_rev)
  have "?r = takeWhile py_isspace ?r @ dropWhile py_isspace ?r" by simp
  then have "last ?r = last (dropWhile py_isspace ?r)" using ne by (metis last_appendR)
  with h l show ?thesis by (simp add: strip_def lstrip_def)
qed

lemma strip_idem: "strip (strip s) = strip s"
proof (cases "strip s = []")
  case True
  have "strip [] = []" by (simp add: strip_def lstrip_def rstrip_def)
  then show ?thesis by (simp add: True)
next
  case False
  then show ?thesis using strip_ends [OF False] by (intro strip_id) auto
qed

lemma join_hd_last:
  assumes "g \<noteq> []" "\<forall>s\<in>set g. s \<noteq> []"
  shows "join sep g \<noteq> [] \<and> hd (join sep g) = hd (hd g) \<and> last (join sep g) = last (last g)"
  using assms
proof (induction g)
  case Nil
  then show ?case by simp
next
  case (Cons x xs)
  then show ?case by (cases xs) auto
qed

lemma split_on_join:
  assumes "g \<noteq> []" "\<forall>s\<in>set g. d \<notin> set s"
  shows "split_on d (join [d] g) = g"
  using assms
proof (induction g)
  case Nil
  then show ?case by simp
next
  case (Cons x xs)
  have pre: "\<And>r. d \<notin> set x \<Longrightarrow> split_on d (x @ d # r) = x # split_on d r"
    by (induction x) auto
  show ?case
  proof (cases xs)
    case Nil
    then show ?thesis using Cons.prems by (simp add: split_on_no_sep)
  next
    case (Cons y ys)
    then show ?thesis using Cons.IH Cons.prems pre by simp
  qed
qed

text \<open>
  C9, amended: for every sequence of non-empty sentences none of which has leading or
  trailing whitespace and none of which contains a newline character, splitting each chunk
  on the newline and concatenating the results in order gives back the input sequence.
\<close>

theorem chunk_split_roundtrip:
  assumes "\<forall>s\<in>set ss. s \<noteq> [] \<and> strip s = s \<and> CHR 0x0A \<notin> set s"
  shows "concat (map (split_on (CHR 0x0A)) (chunk_sentences ss 2000 3600)) = ss"
proof -
  have each: "split_on (CHR 0x0A) (group_text g) = g" if g: "g \<in> set (chunk_groups ss 2000 3600)" for g
  proof -
    have sub: "set g \<subseteq> set ss"
      using g chunk_groups_concat [of ss 2000 3600] by (metis set_concat UN_upper)
    have ne: "g \<noteq> []" using chunk_groups_ok [OF g] by (simp add: group_ok_def)
    have el: "\<forall>s\<in>set g. s \<noteq> []" using sub assms by auto
    have "hd g \<in> set g" "last g \<in> set g" using ne by auto
    then have ends: "\<not> py_isspace (hd (hd g))" "\<not> py_isspace (last (last g))"
      using sub assms strip_ends [of "hd g"] strip_ends [of "last g"] by auto
    have "strip (join newline g) = join newline g"
      using join_hd_last [OF ne el, of newline] ends by (intro strip_id) auto
    moreover have "split_on (CHR 0x0A) (join newline g) = g"
      unfolding newline_def using sub assms by (intro split_on_join [OF ne]) auto
    ultimately show ?thesis by (simp add: group_text_def)
  qed
  have "concat (map (split_on (CHR 0x0A)) (chunk_sentences ss 2000 3600))
        = concat (map (\<lambda>g. split_on (CHR 0x0A) (group_text g)) (chunk_groups ss 2000 3600))"
    by (simp add: chunk_sentences_groups comp_def)
  also have "\<dots> = concat (chunk_groups ss 2000 3600)"
    using each by (simp cong: map_cong)
  finally show ?thesis by (simp add: chunk_groups_concat)
qed

theorem chunk_split_roundtrip_witness:
  "concat (map (split_on (CHR 0x0A)) (chunk_sentences [''One.'', ''Two.''] 2000 3600)) = [''One.'', ''Two.'']"
  using chunk_split_roundtrip [of "[''One.'', ''Two.'']"]
  by (simp add: strip_def lstrip_def rstrip_def py_isspace_def)

text \<open>
  C9 as stated fails for a sentence with a newline inside: it is non-empty and has no
  leading or trailing whitespace, yet splitting its chunk yields two pieces.
\<close>

theorem chunk_split_roundtrip_counterexample:
  "[CHR ''a'', CHR 0x0A, CHR ''b''] \<noteq> []
   \<and> strip [CHR ''a'', CHR 0x0A, CHR ''b''] = [CHR ''a'', CHR 0x0A, CHR ''b'']
   \<and> concat (map (split_on (CHR 0x0A)) (chunk_sentences [[CHR ''a'', CHR 0x0A, CHR ''b'']] 2000 3600))
       \<noteq> [[CHR ''a'', CHR 0x0A, CHR ''b'']]"
  by (simp add: chunk_sentences_def newline_def strip_def lstrip_def rstrip_def py_isspace_def)

section \<open>Claims about the table extractor\<close>

text \<open>
  With the header row in \<open>td\<close> cells the extractor takes the first row out of the table
  before it reads the body rows: one body row results.
\<close>

lemma extract_table_td_header:
  "extract_table [] [0] td_header_table =
     (\<lparr>columns = [''name'', ''tags''], display_columns = [''Name'', ''Tags''],
       rows = [[(''name'', CStr ''Widget''), (''tags'', CList [''red'', ''blue''])]]\<rparr>,
      [[0, 0]])"
  by code_simp

text \<open>
  C1: for the table whose header row is the \<open>th\<close> cells \<open>Name\<close>, \<open>Tags\<close> and whose single
  data row is \<open>Widget\<close>, \<open>red, blue\<close>, the claim expects the columns \<open>name\<close>, \<open>tags\<close>, the
  display columns \<open>Name\<close>, \<open>Tags\<close> and exactly one body row. The code returns those columns
  but two body rows: the header row is not taken out of the table on this path, and the row
  loop reads its \<open>th\<close> cells as a body row \<open>{name: Name, tags: Tags}\<close>.
\<close>

theorem extract_table_th_header_row_kept:
  "extract_table [] [0] th_header_table =
     (\<lparr>columns = [''name'', ''tags''], display_columns = [''Name'', ''Tags''],
       rows = [[(''name'', CStr ''Name''), (''tags'', CStr ''Tags'')],
               [(''name'', CStr ''Widget''), (''tags'', CList [''red'', ''blue''])]]\<rparr>,
      [])"
  by code_simp

section \<open>Claims about index diffing\<close>

text \<open>
  C8: for the previous index \<open>{A: h1, B: h2}\<close> and the new index \<open>{A: h1, C: h3}\<close> the
  caller counts one changed or new chunk, \<open>C\<close>, and one removed chunk, \<open>B\<close>; \<open>A\<close> counts
  as neither.
\<close>

theorem index_diff_example:
  "changed_chunks [(''A'', ''h1''), (''B'', ''h2'')] [(''A'', ''h1''), (''C'', ''h3'')] = 1
   \<and> changed_ids [(''A'', ''h1''), (''B'', ''h2'')] [(''A'', ''h1''), (''C'', ''h3'')] = [''C'']
   \<and> removed_chunks [(''A'', ''h1''), (''B'', ''h2'')] [(''A'', ''h1''), (''C'', ''h3'')] = 1
   \<and> removed_ids [(''A'', ''h1''), (''B'', ''h2'')] [(''A'', ''h1''), (''C'', ''h3'')] = {''B''}"
  by (simp add: changed_chunks_def changed_ids_def removed_chunks_def removed_ids_def)

section \<open>Facts about decimal numerals and chunk identifiers\<close>

lemma of_char_digit: "d < 10 \<Longrightarrow> of_char (digit_char d) = 48 + d"
  by (simp add: digit_char_def)

lemma nat_of_digits_str_nat: "nat_of_digits (str_nat n) = n"
proof (induction n rule: str_nat.induct)
  case (1 n)
  show ?case
  proof (cases "n < 10")
    case True
    then show ?thesis
      by (subst str_nat.simps) (simp add: nat_of_digits_def of_char_digit)
  next
    case False
    have "nat_of_digits (str_nat (n div 10) @ [digit_char (n mod 10)])
          = 10 * nat_of_digits (str_nat (n div 10)) + n mod 10"
      by (simp add: nat_of_digits_def of_char_digit)
    then show ?thesis
      using False 1 by (subst str_nat.simps) simp
  qed
qed

lemma str_nat_inj: "str_nat m = str_nat n \<Longrightarrow> m = n"
  by (metis nat_of_digits_str_nat)

lemma str_nat_chars: "c \<in> set (str_nat n) \<Longrightarrow> 48 \<le> (of_char c :: nat)"
proof (induction n rule: str_nat.induct)
  case (1 n)
  show ?case
  proof (cases "n < 10")
    case True
    with "1.prems" show ?thesis
      by (subst (asm) str_nat.simps) (auto simp: of_char_digit)
  next
    case False
    with "1.prems" have "c \<in> set (str_nat (n div 10)) \<or> c = digit_char (n mod 10)"
      by (subst (asm) str_nat.simps) auto
    then show ?thesis using 1 False by (auto simp: of_char_digit)
  qed
qed

lemma hash_not_in_str_nat: "CHR ''#'' \<notin> set (str_nat n)"
  using str_nat_chars [of "CHR ''#''" n] by auto

lemma takeWhile_before:
  "x \<notin> set xs \<Longrightarrow> takeWhile (\<lambda>c. c \<noteq> x) (xs @ x # ys) = xs"
  by (induction xs) auto

lemma make_chunk_id_inj:
  assumes "make_chunk_id d s r = make_chunk_id d' s' r'"
  shows "r = r'"
proof -
  let ?f = "\<lambda>z. rev (takeWhile (\<lambda>c. c \<noteq> CHR ''#'') (rev z))"
  have tail: "?f (a @ ''#'' @ str_nat k) = str_nat k" for a k
  proof -
    have "rev (a @ ''#'' @ str_nat k) = rev (str_nat k) @ CHR ''#'' # rev a" by simp
    then show ?thesis
      using takeWhile_before [of "CHR ''#''" "rev (str_nat k)" "rev a"] hash_not_in_str_nat [of k]
      by simp
  qed
  have "?f (make_chunk_id d s r) = str_nat r"
    using tail [of "d @ ''::'' @ s" r] by (simp add: make_chunk_id_def)
  moreover have "?f (make_chunk_id d' s' r') = str_nat r'"
    using tail [of "d' @ ''::'' @ s'" r'] by (simp add: make_chunk_id_def)
  ultimately have "str_nat r = str_nat r'" using assms by simp
  then show ?thesis by (rule str_nat_inj)
qed

section \<open>Claims about the assembler\<close>

lemma section_chunks_loop_ok:
  "ranks_ok d st \<Longrightarrow> ranks_ok d (section_chunks_loop L d s kws st texts)"
proof (induction texts arbitrary: st)
  case Nil
  then show ?case by simp
next
  case (Cons t texts)
  obtain chunks idx rk where st: "st = (chunks, idx, rk)" by (cases st) auto
  show ?case
    unfolding st section_chunks_loop.simps Let_def
    by (rule Cons.IH) (use Cons.prems in \<open>simp add: st ranks_ok_def\<close>)
qed

lemma chunks_loop_ok:
  "ranks_ok d st \<Longrightarrow> ranks_ok d (chunks_loop L d kw st sections)"
proof (induction sections arbitrary: st)
  case Nil
  then show ?case by simp
next
  case (Cons s sections)
  show ?case
    using Cons.IH [OF Cons.prems] Cons.IH [OF section_chunks_loop_ok [OF Cons.prems]]
    by (simp add: Let_def)
qed

lemma distinct_ids:
  assumes "map rank chunks = [0..<length chunks]"
    and "map chunk_id chunks = map (\<lambda>c. make_chunk_id d (section_id c) (rank c)) chunks"
  shows "distinct (map chunk_id chunks)"
proof -
  have "distinct (map rank chunks)" using assms(1) by simp
  then have "inj_on rank (set chunks)" "distinct chunks"
    by (auto simp: distinct_map)
  moreover have "inj_on (\<lambda>c. make_chunk_id d (section_id c) (rank c)) (set chunks)"
  proof (rule inj_onI)
    fix x y assume "x \<in> set chunks" "y \<in> set chunks"
      "make_chunk_id d (section_id x) (rank x) = make_chunk_id d (section_id y) (rank y)"
    then show "x = y" using \<open>inj_on rank (set chunks)\<close> make_chunk_id_inj
      by (metis inj_onD)
  qed
  ultimately show ?thesis unfolding assms(2) by (simp add: distinct_map)
qed

text \<open>
  C2: the chunks the assembler produces carry the ranks \<open>0, 1, ..., N-1\<close> in emission
  order across all sections, and the chunk identifiers \<open><doc_id>::<section_id>#<rank>\<close>
  of one document are pairwise distinct, whatever the section ids are.
\<close>

theorem chunk_ranks_contiguous:
  "map rank (fst (snd (build_document L pg markdown sections table_mapping space base_url)))
     = [0..<length (fst (snd (build_document L pg markdown sections table_mapping space base_url)))]
   \<and> distinct (map chunk_id (fst (snd (build_document L pg markdown sections table_mapping space base_url))))
   \<and> map chunk_id (fst (snd (build_document L pg markdown sections table_mapping space base_url)))
       = map (\<lambda>c. make_chunk_id (doc_id (fst (build_document L pg markdown sections table_mapping space base_url)))
                     (section_id c) (rank c))
           (fst (snd (build_document L pg markdown sections table_mapping space base_url)))
   \<and> doc_chunks (fst (build_document L pg markdown sections table_mapping space base_url))
       = fst (snd (build_document L pg markdown sections table_mapping space base_url))"
proof -
  let ?d = "make_doc_id space (page_slug pg) (py_str (p_id pg))"
  let ?kw = "[slugify_text (page_title pg) ''-'', py_lower space, space]"
  let ?st = "chunks_loop L ?d ?kw ([], [], 0) (map (attach_tables table_mapping) sections)"
  have ok: "ranks_ok ?d ?st"
    by (rule chunks_loop_ok) (simp add: ranks_ok_def)
  have chunks: "fst (snd (build_document L pg markdown sections table_mapping space base_url)) = fst ?st"
    by (simp add: build_document_def Let_def)
  have d: "doc_id (fst (build_document L pg markdown sections table_mapping space base_url)) = ?d"
    by (simp add: build_document_def Let_def)
  have dc: "doc_chunks (fst (build_document L pg markdown sections table_mapping space base_url)) = fst ?st"
    by (simp add: build_document_def Let_def)
  obtain cs idx rk where st: "?st = (cs, idx, rk)" by (cases ?st) auto
  from ok have r: "map rank cs = [0..<length cs]"
    and i: "map chunk_id cs = map (\<lambda>c. make_chunk_id ?d (section_id c) (rank c)) cs"
    by (auto simp: ranks_ok_def st)
  show ?thesis
    unfolding chunks d dc st fst_conv using r i distinct_ids [OF r i] by simp
qed

text \<open>
  C3: two page records that agree on page id, title and ancestor titles, converted for the
  same space, get the same slug and the same document identifier, however their bodies,
  versions and links differ (and whatever the libraries and the base URL are).
\<close>

theorem slug_and_id_stable:
  assumes "p_id pg = p_id pg'" and "p_title pg = p_title pg'" and "p_ancestors pg = p_ancestors pg'"
  shows "doc_slug (fst (convert_page L pg space base_url)) = doc_slug (fst (convert_page L' pg' space base_url'))
       \<and> doc_id (fst (convert_page L pg space base_url)) = doc_id (fst (convert_page L' pg' space base_url'))"
  using assms
  by (simp add: convert_page_def build_document_def Let_def page_slug_def page_title_def ancestor_titles_def)

theorem slug_and_id_stable_witness:
  "doc_slug (fst (convert_page empty_libs bare_page ''KB'' ''https://wiki.example''))
     = doc_slug (fst (convert_page empty_libs
          (bare_page\<lparr>p_webui := Some ''/pages/12345'', p_body := Some (Some (Some ''<p>Hi</p>''))\<rparr>)
          ''KB'' ''https://other.example''))
   \<and> doc_id (fst (convert_page empty_libs bare_page ''KB'' ''https://wiki.example''))
     = doc_id (fst (convert_page empty_libs
          (bare_page\<lparr>p_webui := Some ''/pages/12345'', p_body := Some (Some (Some ''<p>Hi</p>''))\<rparr>)
          ''KB'' ''https://other.example''))"
  using slug_and_id_stable [of bare_page
      "bare_page\<lparr>p_webui := Some ''/pages/12345'', p_body := Some (Some (Some ''<p>Hi</p>''))\<rparr>"
      empty_libs "''KB''" "''https://wiki.example''" empty_libs "''https://other.example''"]
  by simp

lemma strip_Nil: "strip [] = []"
  by (simp add: strip_def lstrip_def rstrip_def)

text \<open>
  C5: a page whose \<open>body.storage.value\<close> is the empty string, or whose body is missing,
  converts to a document with exactly one section (id \<open>overview\<close>, title \<open>Overview\<close>,
  empty body), an empty chunk list and an empty chunk-hash index. The parser and markdownify
  are assumed to map the empty input to the empty output.
\<close>

theorem convert_page_empty_body:
  assumes "html_parser L [] = []" and "markdownify L [] = []"
    and "p_body pg = None \<or> p_body pg = Some (Some (Some []))"
  shows "doc_sections (fst (convert_page L pg space base_url))
           = [\<lparr>sp_id = ''overview'', sp_title = ''Overview'', sp_body_md = [],
                sp_anchors = [''overview''], sp_table_json = None\<rparr>]
       \<and> doc_chunks (fst (convert_page L pg space base_url)) = []
       \<and> fst (snd (convert_page L pg space base_url)) = []
       \<and> snd (snd (convert_page L pg space base_url)) = []"
proof -
  have body: "body_html pg = []" using assms(3) by (auto simp: body_html_def)
  have soup: "clean_html L [] = []" by (simp add: clean_html_def assms(1))
  have md: "html_to_markdown L [] = []"
    by (simp add: html_to_markdown_def assms(2) emit_newlines_def strip_Nil)
  have secs: "split_sections [] = [\<lparr>sec_id = ''overview'', sec_title = ''Overview'', body_md = [],
             anchors = [''overview''], table_json = None\<rparr>]"
    by (simp add: split_sections_def strip_Nil)
  have tabs: "map_tables_to_sections [] = []"
    by (simp add: map_tables_to_sections_def soup_find_all_def)
  show ?thesis
    by (simp add: convert_page_def body soup md secs tabs build_document_def Let_def
        attach_tables_def payload_of_def strip_Nil)
qed

theorem convert_page_empty_body_witness:
  "doc_sections (fst (convert_page empty_libs bare_page ''KB'' ''https://wiki.example''))
           = [\<lparr>sp_id = ''overview'', sp_title = ''Overview'', sp_body_md = [],
                sp_anchors = [''overview''], sp_table_json = None\<rparr>]
       \<and> doc_chunks (fst (convert_page empty_libs bare_page ''KB'' ''https://wiki.example'')) = []
       \<and> fst (snd (convert_page empty_libs bare_page ''KB'' ''https://wiki.example'')) = []
       \<and> snd (snd (convert_page empty_libs bare_page ''KB'' ''https://wiki.example'')) = []"
  using convert_page_empty_body [of empty_libs bare_page "''KB''" "''https://wiki.example''"]
  by (simp add: empty_libs_def bare_page_def)

section \<open>Claims about cell values in extracted tables\<close>

lemma split_parts_elems:
  "p \<in> set (split_parts d v) \<Longrightarrow> p \<noteq> [] \<and> \<not> py_isspace (hd p) \<and> \<not> py_isspace (last p)"
  unfolding split_parts_def using strip_ends by auto

lemma maybe_split_list_ok: "cell_ok (maybe_split_list (CStr v))"
  by (auto simp: cell_ok_def list_all_iff dest: split_parts_elems)

lemma dict_set_ok:
  "list_all (\<lambda>kc. cell_ok (snd kc)) d \<Longrightarrow> cell_ok v \<Longrightarrow> list_all (\<lambda>kc. cell_ok (snd kc)) (dict_set k v d)"
  by (induction d) auto

lemma cells_loop_ok:
  "list_all (\<lambda>kc. cell_ok (snd kc)) row_data \<Longrightarrow>
   list_all (\<lambda>kc. cell_ok (snd kc)) (snd (snd (cells_loop det hs ds row_data idx cells)))"
proof (induction cells arbitrary: hs ds row_data idx)
  case Nil
  then show ?case by simp
next
  case (Cons qc cells)
  obtain q c where qc: "qc = (q, c)" by (cases qc) auto
  obtain hs1 ds1 where g: "grow_headers idx hs ds = (hs1, ds1)" by (cases "grow_headers idx hs ds") auto
  show ?case
    unfolding qc cells_loop.simps g prod.case Let_def
    by (rule Cons.IH) (rule dict_set_ok [OF Cons.prems maybe_split_list_ok])
qed

lemma rows_loop_ok:
  "list_all (list_all (\<lambda>kc. cell_ok (snd kc))) body_rows \<Longrightarrow>
   list_all (list_all (\<lambda>kc. cell_ok (snd kc))) (snd (snd (rows_loop det hs ds body_rows trs)))"
proof (induction trs arbitrary: hs ds body_rows)
  case Nil
  then show ?case by simp
next
  case (Cons qr trs)
  obtain q r where qr: "qr = (q, r)" by (cases qr) auto
  let ?cells = "find_all det [''td'', ''th''] q r"
  obtain hs1 ds1 rd where c: "cells_loop det hs ds [] 0 ?cells = (hs1, ds1, rd)"
    by (cases "cells_loop det hs ds [] 0 ?cells") auto
  have rd: "list_all (\<lambda>kc. cell_ok (snd kc)) rd"
    using cells_loop_ok [of "[]" det hs ds 0 ?cells] by (simp add: c)
  show ?case
  proof (cases "?cells = []")
    case True
    then show ?thesis unfolding qr using Cons.IH [OF Cons.prems] by simp
  next
    case False
    have "list_all (list_all (\<lambda>kc. cell_ok (snd kc))) (if rd \<noteq> [] then body_rows @ [rd] else body_rows)"
      using Cons.prems rd by simp
    from Cons.IH [OF this] show ?thesis
      unfolding qr using False by (simp add: c Let_def)
  qed
qed

lemma extract_table_rows_ok:
  "list_all (list_all (\<lambda>kc. cell_ok (snd kc))) (rows (fst (extract_table det p tbl)))"
proof -
  obtain hc det1 where h: "header_cells_of det p tbl = (hc, det1)"
    by (cases "header_cells_of det p tbl") auto
  obtain hs ds where l: "headers_loop det1 [] [] hc = (hs, ds)"
    by (cases "headers_loop det1 [] [] hc") auto
  let ?r = "rows_loop det1 hs ds [] (find_all det1 [''tr''] p tbl)"
  obtain hs1 ds1 body where r: "?r = (hs1, ds1, body)" by (cases ?r) auto
  have "list_all (list_all (\<lambda>kc. cell_ok (snd kc))) (snd (snd ?r))"
    by (rule rows_loop_ok) simp
  then show ?thesis by (simp add: extract_table_def h l r)
qed

text \<open>
  C10: the cell-value post-processor returns either the original string unchanged or a list
  of at least two strings, each non-empty and without leading or trailing whitespace; hence
  every list-valued cell of an extracted table row has at least two non-empty entries.
\<close>

theorem maybe_split_list_shape:
  "(maybe_split_list (CStr v) = CStr v
    \<or> (\<exists>ps. maybe_split_list (CStr v) = CList ps \<and> 2 \<le> length ps
          \<and> (\<forall>p\<in>set ps. p \<noteq> [] \<and> \<not> py_isspace (hd p) \<and> \<not> py_isspace (last p))))
   \<and> (\<forall>row\<in>set (rows (fst (extract_table det p tbl))). \<forall>kc\<in>set row. \<forall>ps.
         snd kc = CList ps \<longrightarrow> 2 \<le> length ps \<and> [] \<notin> set ps)"
proof (intro conjI ballI allI impI)
  show "maybe_split_list (CStr v) = CStr v
    \<or> (\<exists>ps. maybe_split_list (CStr v) = CList ps \<and> 2 \<le> length ps
          \<and> (\<forall>p\<in>set ps. p \<noteq> [] \<and> \<not> py_isspace (hd p) \<and> \<not> py_isspace (last p)))"
    using maybe_split_list_ok [of v]
    by (cases "maybe_split_list (CStr v)") (auto simp: cell_ok_def list_all_iff split: if_splits)
next
  fix row kc ps
  assume row: "row \<in> set (rows (fst (extract_table det p tbl)))"
    and kc: "kc \<in> set row" and ps: "snd kc = CList ps"
  have "\<forall>x\<in>set (rows (fst (extract_table det p tbl))). \<forall>y\<in>set x. cell_ok (snd y)"
    using extract_table_rows_ok [of det p tbl] by (simp add: list_all_iff)
  with row kc have "cell_ok (snd kc)" by blast
  then have "cell_ok (CList ps)" by (simp add: ps)
  then show "2 \<le> length ps" "[] \<notin> set ps" by (auto simp: cell_ok_def list_all_iff)
qed

theorem maybe_split_list_shape_witness:
  "maybe_split_list (CStr ''red, blue'') = CList [''red'', ''blue'']
   \<and> \<not> py_isspace (hd ''red'') \<and> \<not> py_isspace (last ''blue'')"
  using maybe_split_list_shape [of "''red, blue''" "[]" "[0]" "Text []"]
  by (simp add: split_parts_def strip_def lstrip_def rstrip_def py_isspace_def)

section \<open>Claims about the sentence splitter\<close>

lemma gap_then_start_Nil: "\<not> gap_then_start []"
  by (simp add: gap_then_start_def)

lemma gap_then_start_append: "gap_then_start x \<Longrightarrow> gap_then_start (x @ y)"
proof -
  assume g: "gap_then_start x"
  then obtain r t where d: "dropWhile py_isspace x = r # t" and r: "is_upper_or_digit r"
    and tw: "takeWhile py_isspace x \<noteq> []"
    by (auto simp: gap_then_start_def split: list.splits)
  from d have "\<exists>c\<in>set x. \<not> py_isspace c"
    by (metis dropWhile_eq_Nil_conv list.distinct(1))
  then obtain c where c: "c \<in> set x" "\<not> py_isspace c" by blast
  have "dropWhile py_isspace (x @ y) = dropWhile py_isspace x @ y"
    using c by (rule dropWhile_append1)
  moreover have "takeWhile py_isspace (x @ y) = takeWhile py_isspace x"
    using c by (rule takeWhile_append1)
  ultimately show ?thesis using d r tw by (simp add: gap_then_start_def)
qed

lemma upper_or_digit_not_space: "is_upper_or_digit r \<Longrightarrow> \<not> py_isspace r"
  by (auto simp: is_upper_or_digit_def py_isspace_def)

lemma terminator_not_space: "is_terminator p \<Longrightarrow> \<not> py_isspace p"
  by (auto simp: is_terminator_def py_isspace_def)

lemma gap_then_start_parts:
  assumes "gap_then_start s"
  obtains ws r b where "s = ws @ r # b" "ws \<noteq> []" "list_all py_isspace ws" "is_upper_or_digit r"
    "takeWhile py_isspace s = ws" "dropWhile py_isspace s = r # b"
proof -
  from assms obtain r b where d: "dropWhile py_isspace s = r # b" and r: "is_upper_or_digit r"
    and tw: "takeWhile py_isspace s \<noteq> []"
    by (auto simp: gap_then_start_def split: list.splits)
  have "s = takeWhile py_isspace s @ r # b" using d by (metis takeWhile_dropWhile_id)
  moreover have "list_all py_isspace (takeWhile py_isspace s)"
    by (simp add: list_all_iff) (meson set_takeWhileD)
  ultimately show ?thesis using that d r tw by blast
qed

lemma no_match_at_start: "\<not> py_isspace c \<Longrightarrow> \<not> splitter_matches prev (c # cs)"
  by (simp add: splitter_matches_def gap_then_start_def split: option.splits)

lemma re_split_from_start:
  "\<not> py_isspace r \<Longrightarrow> re_split_from prev (r # b) = re_split_from None (r # b)"
  by (simp add: re_split_from.simps no_match_at_start)

lemma re_split_from_whole:
  "\<not> splitter_matches prev s \<Longrightarrow> \<not> has_boundary s \<Longrightarrow> re_split_from prev s = [s]"
proof (induction s arbitrary: prev)
  case Nil
  then show ?case by (simp add: re_split_from.simps)
next
  case (Cons c cs)
  from Cons.prems(2) have "\<not> splitter_matches (Some c) cs" "\<not> has_boundary cs"
    by (auto simp: splitter_matches_def)
  then have "re_split_from (Some c) cs = [cs]" by (rule Cons.IH)
  then show ?case using Cons.prems(1) by (simp add: re_split_from.simps)
qed

lemma re_split_from_first:
  assumes "\<not> splitter_matches prev s" and "has_boundary s"
  shows "\<exists>a p ws r b. s = a @ p # ws @ r # b \<and> is_terminator p \<and> ws \<noteq> [] \<and> list_all py_isspace ws
           \<and> is_upper_or_digit r \<and> \<not> has_boundary (a @ [p])
           \<and> re_split_from prev s = (a @ [p]) # re_split_from None (r # b)"
  using assms
proof (induction s arbitrary: prev)
  case Nil
  then show ?case by simp
next
  case (Cons c cs)
  show ?case
  proof (cases "is_terminator c \<and> gap_then_start cs")
    case True
    then obtain ws r b where parts: "cs = ws @ r # b" "ws \<noteq> []" "list_all py_isspace ws"
      "is_upper_or_digit r" "takeWhile py_isspace cs = ws" "dropWhile py_isspace cs = r # b"
      using gap_then_start_parts by blast
    from parts(1,2) obtain w ws' where cs: "cs = w # ws' @ r # b" and ws: "ws = w # ws'"
      by (cases ws) auto
    have m: "splitter_matches (Some c) (w # ws' @ r # b)"
      using True by (simp add: splitter_matches_def cs)
    have "re_split_from (Some c) cs = [] # re_split_from (Some (last ws)) (r # b)"
      unfolding cs using m parts(5,6) by (simp add: re_split_from.simps cs)
    also have "re_split_from (Some (last ws)) (r # b) = re_split_from None (r # b)"
      by (rule re_split_from_start) (rule upper_or_digit_not_space [OF parts(4)])
    finally have e: "re_split_from prev (c # cs) = [c] # re_split_from None (r # b)"
      using Cons.prems(1) by (simp add: re_split_from.simps)
    have "c # cs = [] @ c # ws @ r # b \<and> is_terminator c \<and> ws \<noteq> [] \<and> list_all py_isspace ws
           \<and> is_upper_or_digit r \<and> \<not> has_boundary ([] @ [c])
           \<and> re_split_from prev (c # cs) = ([] @ [c]) # re_split_from None (r # b)"
      using True parts(1,2,3,4) e by (simp add: gap_then_start_Nil)
    then show ?thesis by (intro exI)
  next
    case False
    with Cons.prems(2) have hb: "has_boundary cs" by auto
    from False have nm: "\<not> splitter_matches (Some c) cs" by (simp add: splitter_matches_def)
    from Cons.IH [OF nm hb] obtain a p ws r b where
      s: "cs = a @ p # ws @ r # b" and p: "is_terminator p" and ws: "ws \<noteq> []" "list_all py_isspace ws"
      and r: "is_upper_or_digit r" and nb: "\<not> has_boundary (a @ [p])"
      and e: "re_split_from (Some c) cs = (a @ [p]) # re_split_from None (r # b)"
      by blast
    have "\<not> gap_then_start (a @ [p])" if "is_terminator c"
    proof
      assume "gap_then_start (a @ [p])"
      then have "gap_then_start ((a @ [p]) @ ws @ r # b)" by (rule gap_then_start_append)
      then have "gap_then_start cs" by (simp add: s)
      with False that show False by simp
    qed
    then have nb': "\<not> has_boundary ((c # a) @ [p])" using nb by auto
    have e': "re_split_from prev (c # cs) = ((c # a) @ [p]) # re_split_from None (r # b)"
      using Cons.prems(1) e by (simp add: re_split_from.simps)
    have "c # cs = (c # a) @ p # ws @ r # b \<and> is_terminator p \<and> ws \<noteq> [] \<and> list_all py_isspace ws
           \<and> is_upper_or_digit r \<and> \<not> has_boundary ((c # a) @ [p])
           \<and> re_split_from prev (c # cs) = ((c # a) @ [p]) # re_split_from None (r # b)"
      using s p ws r nb' e' by simp
    then show ?thesis by (intro exI)
  qed
qed

lemma no_match_None: "\<not> splitter_matches None s"
  by (simp add: splitter_matches_def)

lemma split_at_boundaries_re_split: "split_at_boundaries l (re_split_from None l)"
proof (induction l rule: length_induct)
  case (1 l)
  show ?case
  proof (cases "has_boundary l")
    case False
    then show ?thesis
      using re_split_from_whole [OF no_match_None False] by (simp add: split_at_boundaries.whole)
  next
    case True
    from re_split_from_first [OF no_match_None True] obtain a p ws r b where
      s: "l = a @ p # ws @ r # b" and p: "is_terminator p" and ws: "ws \<noteq> []" "list_all py_isspace ws"
      and r: "is_upper_or_digit r" and nb: "\<not> has_boundary (a @ [p])"
      and e: "re_split_from None l = (a @ [p]) # re_split_from None (r # b)"
      by blast
    have "length (r # b) < length l" by (simp add: s)
    with 1 have "split_at_boundaries (r # b) (re_split_from None (r # b))" by blast
    then have "split_at_boundaries (a @ p # ws @ r # b) ((a @ [p]) # re_split_from None (r # b))"
      using p ws r nb by (intro split_at_boundaries.cut)
    then show ?thesis by (simp add: s [symmetric] e)
  qed
qed

lemma split_pieces_trimmed:
  assumes "split_at_boundaries l segs" and "l \<noteq> []" and "\<not> py_isspace (hd l)" and "\<not> py_isspace (last l)"
  shows "\<forall>seg\<in>set segs. seg \<noteq> [] \<and> \<not> py_isspace (hd seg) \<and> \<not> py_isspace (last seg)"
  using assms
proof (induction rule: split_at_boundaries.induct)
  case (whole s)
  then show ?case by simp
next
  case (cut p ws r a b segs)
  have first: "\<not> py_isspace (hd (a @ [p]))"
    using cut.prems(2) by (cases a) auto
  have lastp: "\<not> py_isspace (last (a @ [p]))"
    using terminator_not_space [OF cut.hyps(1)] by simp
  have "last (r # b) = last (a @ p # ws @ r # b)" by simp
  then have "\<not> py_isspace (last (r # b))" using cut.prems(3) by simp
  moreover have "\<not> py_isspace (hd (r # b))"
    using upper_or_digit_not_space [OF cut.hyps(4)] by simp
  ultimately have "\<forall>seg\<in>set segs. seg \<noteq> [] \<and> \<not> py_isspace (hd seg) \<and> \<not> py_isspace (last seg)"
    using cut.IH by simp
  then show ?case using first lastp by simp
qed

lemma line_units_plain:
  assumes ne: "strip raw \<noteq> []" and nl: "\<not> is_list_line (strip raw)"
  shows "line_units raw = re_split_from None (strip raw)"
proof -
  let ?l = "strip raw"
  let ?segs = "re_split_from None ?l"
  have ends: "\<not> py_isspace (hd ?l)" "\<not> py_isspace (last ?l)"
    using strip_ends [OF ne] by auto
  have tr: "\<forall>seg\<in>set ?segs. seg \<noteq> [] \<and> \<not> py_isspace (hd seg) \<and> \<not> py_isspace (last seg)"
    by (rule split_pieces_trimmed [OF split_at_boundaries_re_split ne ends])
  have id: "\<forall>seg\<in>set ?segs. strip seg = seg" using tr strip_id by blast
  have f: "filter (\<lambda>segment. strip segment \<noteq> []) ?segs = ?segs"
    using tr id by (simp add: filter_id_conv)
  have m: "map strip ?segs = ?segs" using id by (simp add: map_idI)
  have "?segs \<noteq> []" using split_at_boundaries_re_split [of ?l]
    by (cases rule: split_at_boundaries.cases) auto
  then show ?thesis
    using ne nl by (simp add: line_units_def Let_def sentence_splitter_split_def f m)
qed

lemma sentences_loop_concat: "sentences_loop acc ls = acc @ concat (map line_units ls)"
  by (induction ls arbitrary: acc) auto

lemma py_splitlines_Nil: "py_splitlines [] = []"
  by (simp add: py_splitlines_def)

text \<open>
  C7: the sentence splitter works line by line on the stripped text. A blank line yields no
  unit; a line whose stripped form starts with \<open>-\<close>, \<open>*\<close>, \<open>+\<close>, \<open>>\<close> or with digits
  followed by a dot is kept whole as one unit; any other line is cut exactly at its
  boundaries, and kept whole when it has none. In particular \<open>- item one\<close> stays one unit.
\<close>

theorem split_into_sentences_by_line:
  "split_into_sentences text_in = concat (map line_units (py_splitlines (strip text_in)))
   \<and> (strip raw = [] \<longrightarrow> line_units raw = [])
   \<and> (strip raw \<noteq> [] \<and> is_list_line (strip raw) \<longrightarrow> line_units raw = [strip raw])
   \<and> (strip raw \<noteq> [] \<and> \<not> is_list_line (strip raw) \<longrightarrow>
        split_at_boundaries (strip raw) (line_units raw))
   \<and> (strip raw \<noteq> [] \<and> \<not> has_boundary (strip raw) \<longrightarrow> line_units raw = [strip raw])
   \<and> split_into_sentences ''- item one'' = [''- item one'']"
proof (intro conjI impI)
  have "strip [] = []" by (simp add: strip_def lstrip_def rstrip_def)
  then show "split_into_sentences text_in = concat (map line_units (py_splitlines (strip text_in)))"
    by (simp add: split_into_sentences_def sentences_loop_concat py_splitlines_Nil)
next
  assume "strip raw = []"
  then show "line_units raw = []" by (simp add: line_units_def)
next
  assume "strip raw \<noteq> [] \<and> is_list_line (strip raw)"
  then show "line_units raw = [strip raw]" by (simp add: line_units_def)
next
  assume "strip raw \<noteq> [] \<and> \<not> is_list_line (strip raw)"
  then show "split_at_boundaries (strip raw) (line_units raw)"
    using line_units_plain [of raw] split_at_boundaries_re_split [of "strip raw"] by simp
next
  assume a: "strip raw \<noteq> [] \<and> \<not> has_boundary (strip raw)"
  show "line_units raw = [strip raw]"
  proof (cases "is_list_line (strip raw)")
    case True
    then show ?thesis using a by (simp add: line_units_def)
  next
    case False
    then show ?thesis
      using a line_units_plain [of raw] re_split_from_whole [OF no_match_None, of "strip raw"] by simp
  qed
next
  show "split_into_sentences ''- item one'' = [''- item one'']" by code_simp
qed

theorem split_into_sentences_by_line_witness:
  "strip ''  Stop. Go on  '' = ''Stop. Go on''
   \<and> \<not> is_list_line ''Stop. Go on''
   \<and> line_units ''  Stop. Go on  '' = [''Stop.'', ''Go on'']
   \<and> split_at_boundaries ''Stop. Go on'' [''Stop.'', ''Go on'']
   \<and> line_units ''- Stop. Go on'' = [''- Stop. Go on'']
   \<and> line_units ''no boundary here. really'' = [''no boundary here. really'']"
proof -
  have e1: "strip ''  Stop. Go on  '' = ''Stop. Go on''" by code_simp
  have e2: "\<not> is_list_line ''Stop. Go on''" by code_simp
  have e3: "line_units ''  Stop. Go on  '' = [''Stop.'', ''Go on'']" by code_simp
  have e4: "strip ''- Stop. Go on'' = ''- Stop. Go on''" "is_list_line ''- Stop. Go on''" by code_simp+
  have e5: "strip ''no boundary here. really'' = ''no boundary here. really''"
    "\<not> has_boundary ''no boundary here. really''" by code_simp+
  show ?thesis
    using split_into_sentences_by_line [of "[]" "''  Stop. Go on  ''"]
      split_into_sentences_by_line [of "[]" "''- Stop. Go on''"]
      split_into_sentences_by_line [of "[]" "''no boundary here. really''"]
      e1 e2 e3 e4 e5
    by simp
qed

end
